theory Spec2Isabelle
  imports Complex_Main
begin

section \<open>The PES analysis cells of \<^verbatim>\<open>Lab_3_IR_Spectra/IR_Analysis.ipynb\<close>\<close>

text \<open>
  The notebook is a top-level script. Its numeric cells are embedded as pure functions of
  the values the earlier cells leave behind. For the grid, the minimum and the masses,
  Python floats are read as real numbers, so rounding and NaN are outside that part. The
  vibrational energy is embedded in double precision, with every product, quotient and
  square root rounded as IEEE 754 binary64 rounds it. Names that the notebook uses but
  leaves to the student to define (\<^verbatim>\<open>E_spline\<close>, \<^verbatim>\<open>nu\<close>) are parameters of the
  functions that read them.
\<close>

subsection \<open>Errors raised by the numpy calls\<close>

datatype error = ValueError | IndexError

subsection \<open>The fine grid: \<^verbatim>\<open>r_fine = np.linspace(0.5*1.89,2.3*1.89,200)\<close>\<close>

text \<open>
  \<^verbatim>\<open>np.linspace(start, stop, num)\<close> with the default \<^verbatim>\<open>endpoint=True\<close>:
  \<^verbatim>\<open>step = (stop - start) / (num - 1)\<close>, \<^verbatim>\<open>y = arange(0, num) * step + start\<close>, and for
  \<^verbatim>\<open>num > 1\<close> the last entry is overwritten with \<^verbatim>\<open>stop\<close>. A negative \<^verbatim>\<open>num\<close> is
  excluded by the type.
\<close>

definition linspace :: "real \<Rightarrow> real \<Rightarrow> nat \<Rightarrow> real list" where
  "linspace start stop num =
     (if num = 0 then []
      else if num = 1 then [start]
      else (map (\<lambda>i. real i * ((stop - start) / real (num - 1)) + start) [0..<num])
             [num - 1 := stop])"

definition r_fine :: "real list" where
  "r_fine = linspace (0.5 * 1.89) (2.3 * 1.89) 200"

text \<open>\<^verbatim>\<open>E_fine = E_spline(r_fine)\<close>: the spline object is applied to each grid point.\<close>

definition E_fine :: "(real \<Rightarrow> real) \<Rightarrow> real list" where
  "E_fine E_spline = map E_spline r_fine"

subsection \<open>The minimum: \<^verbatim>\<open>Req_idx = np.argmin(E_fine)\<close>, \<^verbatim>\<open>Req = r_fine[Req_idx]\<close>\<close>

text \<open>
  \<^verbatim>\<open>np.argmin\<close> scans the array once, keeping the index and value of the smallest entry
  seen so far and replacing them only on a strictly smaller entry. On an empty array it
  raises \<^verbatim>\<open>ValueError\<close>.
\<close>

fun argmin_scan :: "nat \<Rightarrow> nat \<Rightarrow> real \<Rightarrow> real list \<Rightarrow> nat" where
  "argmin_scan i min_ind mp [] = min_ind"
| "argmin_scan i min_ind mp (x # xs) =
     (if x < mp then argmin_scan (Suc i) i x xs else argmin_scan (Suc i) min_ind mp xs)"

definition argmin :: "real list \<Rightarrow> error + nat" where
  "argmin a = (case a of [] \<Rightarrow> Inl ValueError | x # xs \<Rightarrow> Inr (argmin_scan 1 0 x xs))"

text \<open>Indexing an array by a non-negative index; out of range raises \<^verbatim>\<open>IndexError\<close>.\<close>

definition getitem :: "real list \<Rightarrow> nat \<Rightarrow> error + real" where
  "getitem a i = (if i < length a then Inr (a ! i) else Inl IndexError)"

definition Req_idx :: "(real \<Rightarrow> real) \<Rightarrow> error + nat" where
  "Req_idx E_spline = argmin (E_fine E_spline)"

definition Req :: "(real \<Rightarrow> real) \<Rightarrow> error + real" where
  "Req E_spline = (case Req_idx E_spline of Inl e \<Rightarrow> Inl e | Inr i \<Rightarrow> getitem r_fine i)"

subsection \<open>Masses: \<^verbatim>\<open>mH = 1836.\<close>, \<^verbatim>\<open>mF = 34883.\<close>\<close>

definition mH :: real where
  "mH = 1836"

definition mF :: real where
  "mF = 34883"

text \<open>
  Modelled from the spec: the statement that stores \<^verbatim>\<open>mu\<close> is missing from the cell
  (it is left as an exercise); section 4.4 of the specification and the notebook's text give
  the reduced mass as the product of the two masses over their sum.
\<close>

definition mu :: real where
  "mu = (mH * mF) / (mH + mF)"

subsection \<open>Double precision\<close>

text \<open>
  A Python float and a numpy \<^verbatim>\<open>float64\<close> are IEEE 754 binary64 values: a finite
  value, one of the two infinities, or NaN. The sign of a zero is not kept (\<^verbatim>\<open>-0.0\<close>
  and \<^verbatim>\<open>0.0\<close> compare equal).
\<close>

datatype float64 = Finite real | PInf | MInf | NaN

text \<open>Rounding to the nearest integer, a tie going to the even one.\<close>

definition round_even :: "real \<Rightarrow> int" where
  "round_even y =
     (let n = \<lfloor>y\<rfloor>; f = y - of_int n
      in if f < 1 / 2 then n else if 1 / 2 < f then n + 1 else if even n then n else n + 1)"

definition pow2 :: "int \<Rightarrow> real" where
  "pow2 e = (if 0 \<le> e then 2 ^ nat e else 1 / 2 ^ nat (- e))"

text \<open>
  The result of an arithmetic operation is its exact value rounded to 53 significant
  bits, to nearest with ties to even. With \<open>2\<^sup>e \<le> |x| < 2\<^sup>e\<^sup>+\<^sup>1\<close> the doubles near \<open>x\<close>
  are the multiples of \<open>2\<^sup>e\<^sup>-\<^sup>5\<^sup>2\<close>; below \<open>2\<^sup>-\<^sup>1\<^sup>0\<^sup>2\<^sup>2\<close> (subnormal values) the spacing stays
  \<open>2\<^sup>-\<^sup>1\<^sup>0\<^sup>7\<^sup>4\<close>, and a rounded value of \<open>2\<^sup>1\<^sup>0\<^sup>2\<^sup>4\<close> or more overflows to an infinity.
\<close>

definition float64_round :: "real \<Rightarrow> float64" where
  "float64_round x =
     (if x = 0 then Finite 0
      else (let e = max \<lfloor>log 2 \<bar>x\<bar>\<rfloor> (- 1022);
                q = pow2 (e - 52);
                r = q * of_int (round_even (x / q))
            in if 2 ^ 1024 \<le> \<bar>r\<bar> then (if 0 < x then PInf else MInf) else Finite r))"

text \<open>The product \<^verbatim>\<open>x * y\<close>.\<close>

fun float64_mul :: "float64 \<Rightarrow> float64 \<Rightarrow> float64" where
  "float64_mul (Finite a) (Finite b) = float64_round (a * b)"
| "float64_mul NaN y = NaN"
| "float64_mul x NaN = NaN"
| "float64_mul (Finite a) PInf = (if a = 0 then NaN else if 0 < a then PInf else MInf)"
| "float64_mul (Finite a) MInf = (if a = 0 then NaN else if 0 < a then MInf else PInf)"
| "float64_mul PInf (Finite b) = (if b = 0 then NaN else if 0 < b then PInf else MInf)"
| "float64_mul MInf (Finite b) = (if b = 0 then NaN else if 0 < b then MInf else PInf)"
| "float64_mul PInf PInf = PInf"
| "float64_mul PInf MInf = MInf"
| "float64_mul MInf PInf = MInf"
| "float64_mul MInf MInf = PInf"

text \<open>
  The quotient \<^verbatim>\<open>x / y\<close>. A zero divisor is treated as numpy's \<^verbatim>\<open>float64\<close> treats
  \<^verbatim>\<open>0.0\<close> (an infinity or NaN, with a warning); a Python float would raise
  \<^verbatim>\<open>ZeroDivisionError\<close> there. The divisors below are \<^verbatim>\<open>2 * np.pi\<close> and a positive
  reduced mass, so the case does not arise.
\<close>

fun float64_div :: "float64 \<Rightarrow> float64 \<Rightarrow> float64" where
  "float64_div (Finite a) (Finite b) =
     (if b = 0 then (if a = 0 then NaN else if 0 < a then PInf else MInf)
      else float64_round (a / b))"
| "float64_div NaN y = NaN"
| "float64_div x NaN = NaN"
| "float64_div (Finite a) PInf = Finite 0"
| "float64_div (Finite a) MInf = Finite 0"
| "float64_div PInf (Finite b) = (if 0 \<le> b then PInf else MInf)"
| "float64_div MInf (Finite b) = (if 0 \<le> b then MInf else PInf)"
| "float64_div PInf PInf = NaN"
| "float64_div PInf MInf = NaN"
| "float64_div MInf PInf = NaN"
| "float64_div MInf MInf = NaN"

text \<open>\<^verbatim>\<open>np.sqrt\<close>: the correctly rounded square root; NaN on a negative argument.\<close>

fun np_sqrt :: "float64 \<Rightarrow> float64" where
  "np_sqrt (Finite a) = (if a < 0 then NaN else float64_round (sqrt a))"
| "np_sqrt PInf = PInf"
| "np_sqrt MInf = NaN"
| "np_sqrt NaN = NaN"

text \<open>
  \<^verbatim>\<open>np.pi\<close> is the double \<^verbatim>\<open>3.141592653589793\<close>, bit pattern
  \<^verbatim>\<open>0x400921FB54442D18\<close>, that is \<open>884279719003555 / 2\<^sup>4\<^sup>8\<close>.
\<close>

definition np_pi :: real where
  "np_pi = 884279719003555 / 281474976710656"

subsection \<open>Vibrational energy: \<^verbatim>\<open>E_vib_au = 2 * np.pi * nu\<close>\<close>

text \<open>Python evaluates the two products from the left: \<^verbatim>\<open>(2 * np.pi) * nu\<close>.\<close>

definition E_vib_au :: "float64 \<Rightarrow> float64" where
  "E_vib_au nu = float64_mul (float64_mul (Finite 2) (Finite np_pi)) nu"

text \<open>
  Modelled from the spec: the statement that stores \<^verbatim>\<open>nu\<close> is missing from the cell
  (it is left as an exercise); section 4.4 of the specification and the notebook's text give
  the harmonic frequency as \<open>(1/2\<pi>) \<sqrt>(k/\<mu>)\<close>, here evaluated in double precision as
  \<^verbatim>\<open>(1 / (2 * np.pi)) * np.sqrt(k / mu)\<close>.
\<close>

definition nu_float64 :: "float64 \<Rightarrow> float64 \<Rightarrow> float64" where
  "nu_float64 k m =
     float64_mul (float64_div (Finite 1) (float64_mul (Finite 2) (Finite np_pi)))
       (np_sqrt (float64_div k m))"

subsection \<open>Force constant and harmonic frequency\<close>

datatype extractor_error = NonPhysicalCurvatureError

text \<open>
  Modelled from the spec: the statement that stores \<^verbatim>\<open>nu\<close> is missing from the cell
  (it is left as an exercise, only \<^verbatim>\<open>print("Frequency is ",nu)\<close> and
  \<^verbatim>\<open>E_vib_au = 2 * np.pi * nu\<close> read it); section 4.4 of the specification and the
  notebook's text give the harmonic frequency as \<open>(1/2\<pi>) \<sqrt>(k/\<mu>)\<close>.
\<close>

definition nu :: "real \<Rightarrow> real \<Rightarrow> real" where
  "nu k m = (1 / (2 * pi)) * sqrt (k / m)"

record quantities =
  Force_Constant :: real
  reduced_mass :: real
  frequency :: real

text \<open>
  Modelled from the spec: the statements that store \<^verbatim>\<open>Force_Constant\<close> and
  \<^verbatim>\<open>nu\<close> are missing from the cell, and nothing in the notebook raises an error.
  Section 4.4 of the specification describes the Physical-Quantity Extractor: from the
  equilibrium separation and the curvature function it takes the force constant as the
  curvature at the equilibrium separation, the reduced mass from the two masses and the
  harmonic frequency from both, and a force constant \<open>k \<le> 0\<close> signals
  \<^verbatim>\<open>NonPhysicalCurvatureError\<close>.
\<close>

definition extractor :: "(real \<Rightarrow> real) \<Rightarrow> real \<Rightarrow> extractor_error + quantities" where
  "extractor Curvature_spline r_eq =
     (let k = Curvature_spline r_eq
      in if k \<le> 0 then Inl NonPhysicalCurvatureError
         else Inr \<lparr>Force_Constant = k, reduced_mass = mu, frequency = nu k mu\<rparr>)"

section \<open>Properties\<close>

subsection \<open>The scan of \<^verbatim>\<open>np.argmin\<close>\<close>

lemma argmin_scan_cases:
  "(argmin_scan i bi bv xs = bi \<and> (\<forall>x\<in>set xs. bv \<le> x)) \<or>
   (\<exists>k<length xs. argmin_scan i bi bv xs = i + k \<and> xs ! k < bv \<and>
      (\<forall>j<k. xs ! k < xs ! j) \<and> (\<forall>j<length xs. xs ! k \<le> xs ! j))"
proof (induction xs arbitrary: i bi bv)
  case Nil
  show ?case by simp
next
  case (Cons x xs)
  show ?case
  proof (cases "x < bv")
    case True
    from Cons.IH [of "Suc i" i x] show ?thesis
    proof
      assume h: "argmin_scan (Suc i) i x xs = i \<and> (\<forall>y\<in>set xs. x \<le> y)"
      have "\<forall>j<length (x # xs). (x # xs) ! 0 \<le> (x # xs) ! j"
      proof (intro allI impI)
        fix j assume "j < length (x # xs)"
        then show "(x # xs) ! 0 \<le> (x # xs) ! j"
          using h by (cases j) auto
      qed
      with True h show ?thesis
        by (intro disjI2 exI [of _ 0]) simp
    next
      assume "\<exists>k<length xs. argmin_scan (Suc i) i x xs = Suc i + k \<and> xs ! k < x \<and>
        (\<forall>j<k. xs ! k < xs ! j) \<and> (\<forall>j<length xs. xs ! k \<le> xs ! j)"
      then obtain k where k: "k < length xs" "argmin_scan (Suc i) i x xs = Suc i + k"
        "xs ! k < x" "\<forall>j<k. xs ! k < xs ! j" "\<forall>j<length xs. xs ! k \<le> xs ! j"
        by blast
      have a: "\<forall>j<Suc k. (x # xs) ! Suc k < (x # xs) ! j"
      proof (intro allI impI)
        fix j assume "j < Suc k"
        then show "(x # xs) ! Suc k < (x # xs) ! j"
          using k by (cases j) auto
      qed
      have b: "\<forall>j<length (x # xs). (x # xs) ! Suc k \<le> (x # xs) ! j"
      proof (intro allI impI)
        fix j assume "j < length (x # xs)"
        then show "(x # xs) ! Suc k \<le> (x # xs) ! j"
          using k by (cases j) auto
      qed
      from True k a b show ?thesis
        by (intro disjI2 exI [of _ "Suc k"]) auto
    qed
  next
    case False
    from Cons.IH [of "Suc i" bi bv] show ?thesis
    proof
      assume "argmin_scan (Suc i) bi bv xs = bi \<and> (\<forall>y\<in>set xs. bv \<le> y)"
      with False show ?thesis by auto
    next
      assume "\<exists>k<length xs. argmin_scan (Suc i) bi bv xs = Suc i + k \<and> xs ! k < bv \<and>
        (\<forall>j<k. xs ! k < xs ! j) \<and> (\<forall>j<length xs. xs ! k \<le> xs ! j)"
      then obtain k where k: "k < length xs" "argmin_scan (Suc i) bi bv xs = Suc i + k"
        "xs ! k < bv" "\<forall>j<k. xs ! k < xs ! j" "\<forall>j<length xs. xs ! k \<le> xs ! j"
        by blast
      have a: "\<forall>j<Suc k. (x # xs) ! Suc k < (x # xs) ! j"
      proof (intro allI impI)
        fix j assume "j < Suc k"
        then show "(x # xs) ! Suc k < (x # xs) ! j"
          using k False by (cases j) auto
      qed
      have b: "\<forall>j<length (x # xs). (x # xs) ! Suc k \<le> (x # xs) ! j"
      proof (intro allI impI)
        fix j assume "j < length (x # xs)"
        then show "(x # xs) ! Suc k \<le> (x # xs) ! j"
          using k False by (cases j) auto
      qed
      from False k a b show ?thesis
        by (intro disjI2 exI [of _ "Suc k"]) auto
    qed
  qed
qed

lemma argmin_first:
  assumes "a \<noteq> []"
  shows "\<exists>i<length a. argmin a = Inr i \<and> (\<forall>j<length a. a ! i \<le> a ! j) \<and> (\<forall>j<i. a ! i < a ! j)"
proof -
  from assms obtain x xs where a: "a = x # xs" by (cases a) auto
  from argmin_scan_cases [of 1 0 x xs] show ?thesis
  proof
    assume h: "argmin_scan 1 0 x xs = 0 \<and> (\<forall>y\<in>set xs. x \<le> y)"
    have "\<forall>j<length a. a ! 0 \<le> a ! j"
    proof (intro allI impI)
      fix j assume "j < length a"
      then show "a ! 0 \<le> a ! j" using h a by (cases j) auto
    qed
    with h a show ?thesis by (intro exI [of _ 0]) (simp add: argmin_def)
  next
    assume "\<exists>k<length xs. argmin_scan 1 0 x xs = 1 + k \<and> xs ! k < x \<and>
        (\<forall>j<k. xs ! k < xs ! j) \<and> (\<forall>j<length xs. xs ! k \<le> xs ! j)"
    then obtain k where k: "k < length xs" "argmin_scan 1 0 x xs = 1 + k"
        "xs ! k < x" "\<forall>j<k. xs ! k < xs ! j" "\<forall>j<length xs. xs ! k \<le> xs ! j"
      by blast
    have p: "\<forall>j<Suc k. a ! Suc k < a ! j"
    proof (intro allI impI)
      fix j assume "j < Suc k"
      then show "a ! Suc k < a ! j" using k a by (cases j) auto
    qed
    have q: "\<forall>j<length a. a ! Suc k \<le> a ! j"
    proof (intro allI impI)
      fix j assume "j < length a"
      then show "a ! Suc k \<le> a ! j" using k a by (cases j) auto
    qed
    from k a p q show ?thesis by (intro exI [of _ "Suc k"]) (simp add: argmin_def)
  qed
qed

subsection \<open>The grid\<close>

lemma length_linspace: "length (linspace start stop num) = num"
  by (simp add: linspace_def)

lemma nth_linspace:
  assumes "2 \<le> num" and "i < num"
  shows "linspace start stop num ! i = start + real i * ((stop - start) / real (num - 1))"
proof (cases "i = num - 1")
  case True
  with assms show ?thesis by (simp add: linspace_def)
next
  case False
  with assms show ?thesis by (simp add: linspace_def)
qed

lemma length_r_fine: "length r_fine = 200"
  by (simp add: r_fine_def length_linspace)

lemma nth_r_fine: "i < 200 \<Longrightarrow> r_fine ! i = 189 / 200 + real i * (1701 / 99500)"
  by (simp add: r_fine_def nth_linspace)

lemma r_fine_mono: "i < j \<Longrightarrow> j < 200 \<Longrightarrow> r_fine ! i < r_fine ! j"
  by (simp add: nth_r_fine)

lemma r_fine_bounds: "i < 200 \<Longrightarrow> 0.5 * 1.89 \<le> r_fine ! i \<and> r_fine ! i \<le> 2.3 * 1.89"
proof -
  assume i: "i < 200"
  then have "real i \<le> 199" by simp
  then have "real i * (1701 / 99500) \<le> 199 * (1701 / 99500)"
    by (intro mult_right_mono) simp_all
  with i show ?thesis by (simp add: nth_r_fine)
qed

lemma distinct_r_fine: "distinct r_fine"
proof -
  have "\<And>i j. i < length r_fine \<Longrightarrow> j < length r_fine \<Longrightarrow> i \<noteq> j \<Longrightarrow> r_fine ! i \<noteq> r_fine ! j"
  proof -
    fix i j assume "i < length r_fine" "j < length r_fine" "i \<noteq> j"
    then show "r_fine ! i \<noteq> r_fine ! j"
      using r_fine_mono [of i j] r_fine_mono [of j i]
      by (cases "i < j") (auto simp: length_r_fine)
  qed
  then show ?thesis by (simp add: distinct_conv_nth)
qed

lemma Req_idx_first:
  "\<exists>i<200. Req_idx E_spline = Inr i \<and>
     (\<forall>j<200. E_fine E_spline ! i \<le> E_fine E_spline ! j) \<and>
     (\<forall>j<i. E_fine E_spline ! i < E_fine E_spline ! j)"
proof -
  have "E_fine E_spline \<noteq> []"
    using length_r_fine by (auto simp: E_fine_def)
  from argmin_first [OF this] show ?thesis
    by (simp add: Req_idx_def E_fine_def length_r_fine)
qed

subsection \<open>The reduced mass and the frequency are positive\<close>

lemma mu_pos: "0 < mu"
  by (simp add: mu_def mH_def mF_def)

lemma nu_pos: "0 < k \<Longrightarrow> 0 < m \<Longrightarrow> 0 < nu k m"
  by (simp add: nu_def)

subsection \<open>Rounding to double precision\<close>

lemma pow2_powr: "pow2 e = 2 powr (real_of_int e)"
  by (simp add: pow2_def powr_real_of_int inverse_eq_divide)

lemma pow2_pos: "0 < pow2 e"
  by (simp add: pow2_powr)

lemma pow2_add: "pow2 (a + b) = pow2 a * pow2 b"
  by (simp add: pow2_powr powr_add)

lemma pow2_mono: "a \<le> b \<Longrightarrow> pow2 a \<le> pow2 b"
  by (simp add: pow2_powr)

lemma round_even_err: "\<bar>of_int (round_even y) - y\<bar> \<le> 1 / 2"
proof -
  have "of_int \<lfloor>y\<rfloor> \<le> y" "y < of_int \<lfloor>y\<rfloor> + 1" by linarith+
  then show ?thesis
    by (auto simp: round_even_def Let_def)
qed

lemma round_even_eq:
  assumes "of_int n - 1 / 2 < y" and "y < of_int n + 1 / 2"
  shows "round_even y = n"
proof -
  have fl: "of_int \<lfloor>y\<rfloor> \<le> y" "y < of_int \<lfloor>y\<rfloor> + 1" by linarith+
  have e: "\<bar>of_int (round_even y) - y\<bar> \<le> 1 / 2" by (rule round_even_err)
  have "\<bar>(of_int (round_even y) :: real) - of_int n\<bar> < 1"
    using e assms by linarith
  then have "\<bar>round_even y - n\<bar> < 1"
    by (metis of_int_diff of_int_abs of_int_less_1_iff)
  then show ?thesis by simp
qed

lemma round_even_nonneg: "0 \<le> y \<Longrightarrow> 0 \<le> round_even y"
proof -
  assume "0 \<le> y"
  then have "0 \<le> \<lfloor>y\<rfloor>" by simp
  then show ?thesis by (auto simp: round_even_def Let_def)
qed

lemma exponent_bounds:
  assumes "x \<noteq> 0"
  shows "pow2 \<lfloor>log 2 \<bar>x\<bar>\<rfloor> \<le> \<bar>x\<bar>" and "\<bar>x\<bar> < pow2 (\<lfloor>log 2 \<bar>x\<bar>\<rfloor> + 1)"
proof -
  have pos: "0 < \<bar>x\<bar>" using assms by simp
  have x: "2 powr (log 2 \<bar>x\<bar>) = \<bar>x\<bar>" using pos by simp
  have "of_int \<lfloor>log 2 \<bar>x\<bar>\<rfloor> \<le> log 2 \<bar>x\<bar>" by simp
  then have "2 powr (of_int \<lfloor>log 2 \<bar>x\<bar>\<rfloor>) \<le> 2 powr (log 2 \<bar>x\<bar>)"
    by (simp only: powr_le_cancel_iff [of 2] one_less_numeral_iff semiring_norm)
  with x show "pow2 \<lfloor>log 2 \<bar>x\<bar>\<rfloor> \<le> \<bar>x\<bar>" by (simp add: pow2_powr)
  have "log 2 \<bar>x\<bar> < of_int (\<lfloor>log 2 \<bar>x\<bar>\<rfloor> + 1)" by linarith
  then have "2 powr (log 2 \<bar>x\<bar>) < 2 powr (of_int (\<lfloor>log 2 \<bar>x\<bar>\<rfloor> + 1))"
    by (simp only: powr_less_cancel_iff [of 2] one_less_numeral_iff semiring_norm)
  with x show "\<bar>x\<bar> < pow2 (\<lfloor>log 2 \<bar>x\<bar>\<rfloor> + 1)" by (simp add: pow2_powr)
qed

lemma exponent_eq:
  assumes "pow2 e \<le> \<bar>x\<bar>" and "\<bar>x\<bar> < pow2 (e + 1)"
  shows "\<lfloor>log 2 \<bar>x\<bar>\<rfloor> = e"
proof -
  have pos: "0 < \<bar>x\<bar>" using assms(1) pow2_pos [of e] by linarith
  then have nz: "x \<noteq> 0" by auto
  let ?f = "\<lfloor>log 2 \<bar>x\<bar>\<rfloor>"
  from exponent_bounds [OF nz] have b: "pow2 ?f \<le> \<bar>x\<bar>" "\<bar>x\<bar> < pow2 (?f + 1)" .
  have "\<not> ?f + 1 \<le> e"
  proof
    assume "?f + 1 \<le> e"
    then have "pow2 (?f + 1) \<le> pow2 e" by (rule pow2_mono)
    with b(2) assms(1) show False by linarith
  qed
  moreover have "\<not> e + 1 \<le> ?f"
  proof
    assume "e + 1 \<le> ?f"
    then have "pow2 (e + 1) \<le> pow2 ?f" by (rule pow2_mono)
    with b(1) assms(2) show False by linarith
  qed
  ultimately show ?thesis by linarith
qed

lemma float64_round_eval:
  assumes "pow2 e \<le> \<bar>x\<bar>" and "\<bar>x\<bar> < pow2 (e + 1)" and "- 1022 \<le> e"
    and "of_int n - 1 / 2 < x / pow2 (e - 52)" and "x / pow2 (e - 52) < of_int n + 1 / 2"
    and "\<bar>pow2 (e - 52) * of_int n\<bar> < 2 ^ 1024"
  shows "float64_round x = Finite (pow2 (e - 52) * of_int n)"
proof -
  have nz: "x \<noteq> 0" using assms(1) pow2_pos [of e] by auto
  have e: "max \<lfloor>log 2 \<bar>x\<bar>\<rfloor> (- 1022) = e"
    using exponent_eq [OF assms(1,2)] assms(3) by simp
  have n: "round_even (x / pow2 (e - 52)) = n"
    using assms(4,5) by (rule round_even_eq)
  show ?thesis
    unfolding float64_round_def Let_def e n using nz assms(6) by simp
qed

lemma float64_round_normal:
  assumes lo: "pow2 (- 1022) \<le> \<bar>x\<bar>" and hi: "\<bar>x\<bar> \<le> 2 ^ 1023"
  shows "\<exists>r. float64_round x = Finite r \<and> \<bar>r - x\<bar> \<le> \<bar>x\<bar> / 2 ^ 53"
proof -
  have nz: "x \<noteq> 0" using lo pow2_pos [of "- 1022"] by auto
  let ?f = "\<lfloor>log 2 \<bar>x\<bar>\<rfloor>"
  from exponent_bounds [OF nz] have b: "pow2 ?f \<le> \<bar>x\<bar>" "\<bar>x\<bar> < pow2 (?f + 1)" .
  have "\<not> ?f + 1 \<le> - 1022"
  proof
    assume "?f + 1 \<le> - 1022"
    then have "pow2 (?f + 1) \<le> pow2 (- 1022)" by (rule pow2_mono)
    with b(2) lo show False by linarith
  qed
  then have e: "max ?f (- 1022) = ?f" by simp
  let ?q = "pow2 (?f - 52)"
  let ?n = "round_even (x / ?q)"
  let ?r = "?q * of_int ?n"
  have qpos: "0 < ?q" by (rule pow2_pos)
  have q: "?q = pow2 ?f / 2 ^ 52"
    using pow2_add [of ?f "- 52"] by (simp add: pow2_def)
  have "\<bar>?r - x\<bar> = ?q * \<bar>of_int ?n - x / ?q\<bar>"
  proof -
    have "?r - x = ?q * (of_int ?n - x / ?q)"
      using qpos by (simp add: algebra_simps)
    then show ?thesis using qpos by (simp add: abs_mult)
  qed
  also have "\<dots> \<le> ?q * (1 / 2)"
    using round_even_err [of "x / ?q"] qpos by (intro mult_left_mono) simp_all
  also have "\<dots> = pow2 ?f / 2 ^ 53" by (simp add: q)
  also have "\<dots> \<le> \<bar>x\<bar> / 2 ^ 53" using b(1) by (simp add: divide_right_mono)
  finally have err: "\<bar>?r - x\<bar> \<le> \<bar>x\<bar> / 2 ^ 53" .
  have "\<bar>?r\<bar> \<le> \<bar>x\<bar> + \<bar>x\<bar> / 2 ^ 53" using err by linarith
  also have "\<dots> \<le> 2 ^ 1023 + 2 ^ 1023 / 2 ^ 53"
    using hi by (intro add_mono divide_right_mono) simp_all
  also have "\<dots> < (2 ^ 1024 :: real)" by simp
  finally have "\<not> 2 ^ 1024 \<le> \<bar>?r\<bar>" by simp
  then have "float64_round x = Finite ?r"
    unfolding float64_round_def Let_def e using nz by simp
  with err show ?thesis by blast
qed

lemma float64_round_pos:
  assumes "0 < x"
  shows "float64_round x = PInf \<or>
    (\<exists>r. float64_round x = Finite r \<and> (r = 0 \<or> pow2 (- 1074) \<le> r) \<and> r < 2 ^ 1024)"
proof -
  let ?e = "max \<lfloor>log 2 \<bar>x\<bar>\<rfloor> (- 1022)"
  let ?q = "pow2 (?e - 52)"
  let ?n = "round_even (x / ?q)"
  let ?r = "?q * of_int ?n"
  have qpos: "0 < ?q" by (rule pow2_pos)
  have n0: "0 \<le> ?n" using assms qpos by (intro round_even_nonneg) simp
  show ?thesis
  proof (cases "2 ^ 1024 \<le> \<bar>?r\<bar>")
    case True
    then have "float64_round x = PInf"
      unfolding float64_round_def Let_def using assms by simp
    then show ?thesis ..
  next
    case False
    then have fr: "float64_round x = Finite ?r"
      unfolding float64_round_def Let_def using assms by simp
    have small: "?r < 2 ^ 1024" using False by linarith
    have "?r = 0 \<or> pow2 (- 1074) \<le> ?r"
    proof (cases "?n = 0")
      case True
      then show ?thesis by simp
    next
      case False
      with n0 have "1 \<le> ?n" by linarith
      then have "(1::real) \<le> of_int ?n" by simp
      then have "?q * 1 \<le> ?r" using qpos by (intro mult_left_mono) simp_all
      moreover have "pow2 (- 1074) \<le> ?q" by (intro pow2_mono) simp
      ultimately show ?thesis by simp
    qed
    with fr small show ?thesis by blast
  qed
qed

subsection \<open>The computation at \<open>k = 3\<close>, \<open>\<mu> = 1\<close>\<close>

lemma round_two_np_pi: "float64_round (2 * np_pi) = Finite (2 * np_pi)"
proof -
  have "float64_round (2 * np_pi) = Finite (pow2 (2 - 52) * of_int 7074237752028440)"
    by (rule float64_round_eval) (simp_all add: pow2_def np_pi_def)
  then show ?thesis by (simp add: pow2_def np_pi_def)
qed

lemma round_recip:
  "float64_round (1 / (2 * np_pi)) = Finite (5734161139222659 / 2 ^ 55)"
proof -
  have "float64_round (1 / (2 * np_pi)) = Finite (pow2 (- 3 - 52) * of_int 5734161139222659)"
    by (rule float64_round_eval) (simp_all add: pow2_def np_pi_def)
  then show ?thesis by (simp add: pow2_def)
qed

lemma round_3: "float64_round (3 / 1) = Finite 3"
proof -
  have "float64_round (3 / 1) = Finite (pow2 (1 - 52) * of_int 6755399441055744)"
    by (rule float64_round_eval) (simp_all add: pow2_def)
  then show ?thesis by (simp add: pow2_def)
qed

lemma round_sqrt_3: "float64_round (sqrt 3) = Finite (7800463371553962 / 2 ^ 52)"
proof -
  have lo: "(15600926743107923 / 2 ^ 53 :: real) < sqrt 3"
    by (rule real_less_rsqrt) (simp add: power2_eq_square)
  have hi: "sqrt 3 < (15600926743107925 / 2 ^ 53 :: real)"
    by (rule real_less_lsqrt) (simp_all add: power2_eq_square)
  have "float64_round (sqrt 3) = Finite (pow2 (0 - 52) * of_int 7800463371553962)"
  proof (rule float64_round_eval)
    show "pow2 0 \<le> \<bar>sqrt 3\<bar>" using lo by (simp add: pow2_def)
    show "\<bar>sqrt 3\<bar> < pow2 (0 + 1)" using hi by (simp add: pow2_def)
    show "of_int 7800463371553962 - 1 / 2 < sqrt 3 / pow2 (0 - 52)"
      using lo by (simp add: pow2_def field_simps)
    show "sqrt 3 / pow2 (0 - 52) < of_int 7800463371553962 + 1 / 2"
      using hi by (simp add: pow2_def field_simps)
  qed (simp_all add: pow2_def)
  then show ?thesis by (simp add: pow2_def)
qed

lemma round_nu_3_1:
  "float64_round (5734161139222659 / 2 ^ 55 * (7800463371553962 / 2 ^ 52)) =
     Finite (4965929215960340 / 2 ^ 54)"
proof -
  have "float64_round (5734161139222659 / 2 ^ 55 * (7800463371553962 / 2 ^ 52)) =
      Finite (pow2 (- 2 - 52) * of_int 4965929215960340)"
    by (rule float64_round_eval) (simp_all add: pow2_def)
  then show ?thesis by (simp add: pow2_def)
qed

lemma round_E_3_1:
  "float64_round (2 * np_pi * (4965929215960340 / 2 ^ 54)) =
     Finite (7800463371553963 / 2 ^ 52)"
proof -
  have "float64_round (2 * np_pi * (4965929215960340 / 2 ^ 54)) =
      Finite (pow2 (0 - 52) * of_int 7800463371553963)"
    by (rule float64_round_eval) (simp_all add: pow2_def np_pi_def)
  then show ?thesis by (simp add: pow2_def)
qed

lemma two_np_pi_nonzero: "2 * np_pi \<noteq> 0"
  by (simp add: np_pi_def)

lemma sqrt_3_1:
  "np_sqrt (float64_div (Finite 3) (Finite 1)) = Finite (7800463371553962 / 2 ^ 52)"
proof -
  have a: "(1::real) \<noteq> 0" "\<not> (3::real) < 0" by simp_all
  show ?thesis
    by (simp only: float64_div.simps np_sqrt.simps a if_False round_3 round_sqrt_3)
qed

lemma two_np_pi: "float64_mul (Finite 2) (Finite np_pi) = Finite (2 * np_pi)"
  by (simp only: float64_mul.simps round_two_np_pi)

lemma recip_two_np_pi:
  "float64_div (Finite 1) (Finite (2 * np_pi)) = Finite (5734161139222659 / 2 ^ 55)"
  by (simp only: float64_div.simps two_np_pi_nonzero if_False round_recip)

lemma nu_3_1: "nu_float64 (Finite 3) (Finite 1) = Finite (4965929215960340 / 2 ^ 54)"
proof -
  have "nu_float64 (Finite 3) (Finite 1) =
      float64_mul (Finite (5734161139222659 / 2 ^ 55)) (Finite (7800463371553962 / 2 ^ 52))"
    unfolding nu_float64_def by (simp only: two_np_pi recip_two_np_pi sqrt_3_1)
  also have "\<dots> = Finite (4965929215960340 / 2 ^ 54)"
    by (simp only: float64_mul.simps round_nu_3_1)
  finally show ?thesis .
qed

lemma E_3_1: "E_vib_au (nu_float64 (Finite 3) (Finite 1)) = Finite (7800463371553963 / 2 ^ 52)"
proof -
  have "E_vib_au (nu_float64 (Finite 3) (Finite 1)) =
      float64_mul (Finite (2 * np_pi)) (Finite (4965929215960340 / 2 ^ 54))"
    unfolding E_vib_au_def by (simp only: two_np_pi nu_3_1)
  also have "\<dots> = Finite (7800463371553963 / 2 ^ 52)"
    by (simp only: float64_mul.simps round_E_3_1)
  finally show ?thesis .
qed

subsection \<open>Three roundings between the square root and the reported energy\<close>

lemma rel_bounds:
  assumes "\<bar>b - a\<bar> \<le> \<bar>a\<bar> / 2 ^ 53" and "0 \<le> (a::real)"
  shows "a * (1 - 1 / 2 ^ 53) \<le> b" and "b \<le> a * (1 + 1 / 2 ^ 53)"
proof -
  have d: "\<bar>b - a\<bar> \<le> a / 2 ^ 53" using assms by simp
  have "a * (1 - 1 / 2 ^ 53) = a - a / 2 ^ 53" by (simp add: algebra_simps)
  with d show "a * (1 - 1 / 2 ^ 53) \<le> b" by linarith
  have "a * (1 + 1 / 2 ^ 53) = a + a / 2 ^ 53" by (simp add: algebra_simps)
  with d show "b \<le> a * (1 + 1 / 2 ^ 53)" by linarith
qed

lemma E_vib_au_mul: "E_vib_au v = float64_mul (Finite (2 * np_pi)) v"
  unfolding E_vib_au_def by (simp only: two_np_pi)

lemma nu_float64_mul:
  "nu_float64 k m =
     float64_mul (Finite (5734161139222659 / 2 ^ 55)) (np_sqrt (float64_div k m))"
  unfolding nu_float64_def by (simp only: two_np_pi recip_two_np_pi)

lemma chain_bound:
  fixes sv :: real
  assumes sv: "pow2 (- 538) \<le> sv" "sv \<le> 2 ^ 513"
  shows "\<exists>ev. float64_mul (Finite (2 * np_pi))
            (float64_mul (Finite (5734161139222659 / 2 ^ 55)) (Finite sv)) = Finite ev \<and>
          \<bar>ev - sv\<bar> \<le> sv / 2 ^ 51"
proof -
  define c :: real where "c = 5734161139222659 / 2 ^ 55"
  define t :: real where "t = 2 * np_pi"
  define U :: real where "U = 1 + 1 / 2 ^ 53"
  define L :: real where "L = 1 - 1 / 2 ^ 53"
  define A :: real where "A = 1 / 2 ^ 538"
  define B :: real where "B = 2 ^ 513"
  have c: "1 / 8 \<le> c" "c \<le> 1 / 4" "0 \<le> c" by (simp_all add: c_def)
  have t: "4 \<le> t" "t \<le> 8" "0 \<le> t" by (simp_all add: t_def np_pi_def)
  have tc: "L \<le> t * c" "t * c \<le> U" by (simp_all add: t_def c_def np_pi_def L_def U_def)
  have UL: "0 \<le> L" "L \<le> 1" "1 \<le> U" "U \<le> 2" "1 / 2 \<le> L" "0 \<le> U"
    by (simp_all add: U_def L_def)
  have U3: "U * U * U \<le> 1 + 1 / 2 ^ 51" by (simp add: U_def)
  have L3: "1 - 1 / 2 ^ 51 \<le> L * L * L" by (simp add: L_def)
  have A: "0 < A" "0 \<le> A" by (simp_all add: A_def)
  have B: "0 \<le> B" by (simp add: B_def)
  have lo1: "pow2 (- 1022) \<le> 1 / 8 * A" by (simp add: pow2_def A_def)
  have lo2: "pow2 (- 1022) \<le> 4 * (1 / 8 * A * (1 / 2))" by (simp add: pow2_def A_def)
  have hi1: "1 / 4 * B \<le> 2 ^ 1023" by (simp add: B_def)
  have hi2: "8 * (1 / 4 * B * 2) \<le> 2 ^ 1023" by (simp add: B_def)
  have svA: "A \<le> sv" using sv(1) by (simp add: A_def pow2_def)
  have svB: "sv \<le> B" using sv(2) by (simp add: B_def)
  have svpos: "0 < sv" "0 \<le> sv" using svA A by linarith+
  \<comment> \<open>the product \<open>c * sv\<close>\<close>
  have cs_lo: "1 / 8 * A \<le> c * sv"
    by (rule mult_mono [OF c(1) svA c(3) A(2)])
  have cs_hi: "c * sv \<le> 1 / 4 * B"
    by (rule mult_mono [OF c(2) svB _ svpos(2)]) simp
  have cs_pos: "0 < c * sv" "0 \<le> c * sv" using cs_lo A by linarith+
  have "pow2 (- 1022) \<le> \<bar>c * sv\<bar>" using lo1 cs_lo cs_pos by linarith
  moreover have "\<bar>c * sv\<bar> \<le> 2 ^ 1023" using hi1 cs_hi cs_pos by linarith
  ultimately obtain nv where nv: "float64_round (c * sv) = Finite nv"
      "\<bar>nv - c * sv\<bar> \<le> \<bar>c * sv\<bar> / 2 ^ 53"
    using float64_round_normal by blast
  have nvb: "c * sv * L \<le> nv" "nv \<le> c * sv * U"
    using rel_bounds [OF nv(2) cs_pos(2)] unfolding L_def U_def by simp_all
  have nv_lo: "1 / 8 * A * (1 / 2) \<le> nv"
  proof -
    have "0 \<le> 1 / 8 * A" using A by simp
    then have "1 / 8 * A * (1 / 2) \<le> c * sv * L"
      by (intro mult_mono [OF cs_lo UL(5) cs_pos(2)]) simp
    with nvb(1) show ?thesis by linarith
  qed
  have nv_pos: "0 < nv" "0 \<le> nv" using nv_lo A by linarith+
  have nv_hi: "nv \<le> 1 / 4 * B * 2"
  proof -
    have "0 \<le> 1 / 4 * B" using B by simp
    then have "c * sv * U \<le> 1 / 4 * B * 2"
      by (intro mult_mono [OF cs_hi UL(4) _ UL(6)])
    with nvb(2) show ?thesis by linarith
  qed
  \<comment> \<open>the product \<open>t * nv\<close>\<close>
  have tn_lo: "4 * (1 / 8 * A * (1 / 2)) \<le> t * nv"
  proof -
    have "0 \<le> 1 / 8 * A * (1 / 2)" using A by simp
    then show ?thesis by (intro mult_mono [OF t(1) nv_lo t(3)])
  qed
  have tn_hi: "t * nv \<le> 8 * (1 / 4 * B * 2)"
    by (rule mult_mono [OF t(2) nv_hi _ nv_pos(2)]) simp
  have tn_pos: "0 < t * nv" "0 \<le> t * nv" using tn_lo A by linarith+
  have "pow2 (- 1022) \<le> \<bar>t * nv\<bar>" using lo2 tn_lo tn_pos by linarith
  moreover have "\<bar>t * nv\<bar> \<le> 2 ^ 1023" using hi2 tn_hi tn_pos by linarith
  ultimately obtain ev where ev: "float64_round (t * nv) = Finite ev"
      "\<bar>ev - t * nv\<bar> \<le> \<bar>t * nv\<bar> / 2 ^ 53"
    using float64_round_normal by blast
  have evb: "t * nv * L \<le> ev" "ev \<le> t * nv * U"
    using rel_bounds [OF ev(2) tn_pos(2)] unfolding L_def U_def by simp_all
  \<comment> \<open>the three roundings together\<close>
  have svUU: "0 \<le> sv * U * U" using svpos(2) UL(6) by simp
  have svLL: "0 \<le> sv * L * L" using svpos(2) UL(1) by simp
  have up: "ev \<le> sv * (1 + 1 / 2 ^ 51)"
  proof -
    have "t * nv \<le> t * (c * sv * U)"
      by (rule mult_left_mono [OF nvb(2) t(3)])
    then have "t * nv * U \<le> t * (c * sv * U) * U"
      by (rule mult_right_mono [OF _ UL(6)])
    also have "\<dots> = (t * c) * (sv * U * U)" by simp
    also have "\<dots> \<le> U * (sv * U * U)"
      by (rule mult_right_mono [OF tc(2) svUU])
    also have "\<dots> = sv * (U * U * U)" by simp
    also have "\<dots> \<le> sv * (1 + 1 / 2 ^ 51)"
      by (rule mult_left_mono [OF U3 svpos(2)])
    finally show ?thesis using evb(2) by linarith
  qed
  have down: "sv * (1 - 1 / 2 ^ 51) \<le> ev"
  proof -
    have "sv * (1 - 1 / 2 ^ 51) \<le> sv * (L * L * L)"
      by (rule mult_left_mono [OF L3 svpos(2)])
    also have "\<dots> = L * (sv * L * L)" by simp
    also have "\<dots> \<le> (t * c) * (sv * L * L)"
      by (rule mult_right_mono [OF tc(1) svLL])
    also have "\<dots> = t * (c * sv * L) * L" by simp
    also have "\<dots> \<le> t * nv * L"
    proof -
      have "t * (c * sv * L) \<le> t * nv" by (rule mult_left_mono [OF nvb(1) t(3)])
      then show ?thesis by (rule mult_right_mono [OF _ UL(1)])
    qed
    finally show ?thesis using evb(1) by linarith
  qed
  have e1: "sv * (1 + 1 / 2 ^ 51) = sv + sv / 2 ^ 51"
    by (simp add: algebra_simps)
  have e2: "sv * (1 - 1 / 2 ^ 51) = sv - sv / 2 ^ 51"
    by (simp add: algebra_simps)
  have up': "ev \<le> sv + sv / 2 ^ 51" using up unfolding e1 .
  have down': "sv - sv / 2 ^ 51 \<le> ev" using down unfolding e2 .
  have "\<bar>ev - sv\<bar> \<le> sv / 2 ^ 51"
    unfolding abs_le_iff using up' down' by (intro conjI) linarith+
  moreover have "float64_mul (Finite (2 * np_pi))
      (float64_mul (Finite (5734161139222659 / 2 ^ 55)) (Finite sv)) = Finite ev"
    using nv(1) ev(1) unfolding c_def t_def by (simp only: float64_mul.simps)
  ultimately show ?thesis by blast
qed

lemma sqrt_round_bounds:
  assumes r0: "pow2 (- 1074) \<le> r0" "r0 < 2 ^ 1024"
  shows "\<exists>sv. float64_round (sqrt r0) = Finite sv \<and> pow2 (- 538) \<le> sv \<and> sv \<le> 2 ^ 513"
proof -
  define y where "y = sqrt r0"
  have "(pow2 (- 537))\<^sup>2 = pow2 (- 1074)"
    using pow2_add [of "- 537" "- 537"] by (simp add: power2_eq_square)
  with r0(1) have "(pow2 (- 537))\<^sup>2 \<le> r0" by simp
  then have ylo: "pow2 (- 537) \<le> y" unfolding y_def by (rule real_le_rsqrt)
  have "r0 \<le> (2 ^ 512)\<^sup>2" using r0(2) by simp
  then have yhi: "y \<le> 2 ^ 512" unfolding y_def by (intro real_le_lsqrt) simp_all
  have ypos: "0 < y" "0 \<le> y" using ylo pow2_pos [of "- 537"] by linarith+
  have half: "pow2 (- 538) = pow2 (- 537) / 2"
    using pow2_add [of "- 537" "- 1"] by (simp add: pow2_def)
  have p: "pow2 (- 1022) \<le> pow2 (- 537)" by (intro pow2_mono) simp
  have q: "(2 ^ 512 :: real) \<le> 2 ^ 1023" by simp
  have "pow2 (- 1022) \<le> \<bar>y\<bar>" using p ylo ypos by linarith
  moreover have "\<bar>y\<bar> \<le> 2 ^ 1023" using q yhi ypos by linarith
  ultimately obtain sv where sv: "float64_round y = Finite sv" "\<bar>sv - y\<bar> \<le> \<bar>y\<bar> / 2 ^ 53"
    using float64_round_normal by blast
  have d: "\<bar>sv - y\<bar> \<le> y / 2 ^ 53" using sv(2) ypos by simp
  have "y / 2 ^ 53 \<le> y / 2" using ypos by (intro divide_left_mono) simp_all
  with d have "y / 2 \<le> sv" "sv \<le> 2 * y" using ypos by linarith+
  moreover have "(2 * 2 ^ 512 :: real) = 2 ^ 513" by simp
  ultimately have "pow2 (- 538) \<le> sv" "sv \<le> 2 ^ 513"
    using ylo yhi half by linarith+
  with sv(1) show ?thesis unfolding y_def by blast
qed

subsection \<open>Claims\<close>

text \<open>
  C3: the equilibrium separation \<^verbatim>\<open>Req\<close> is the grid point at the index that
  \<^verbatim>\<open>np.argmin\<close> returns, its energy is minimal over the grid, and among the grid points
  with exactly that minimal energy it is the first one, which is the one of lowest \<open>r\<close>.
\<close>

theorem Req_first_minimum:
  "\<exists>i<length r_fine. Req_idx E_spline = Inr i \<and> Req E_spline = Inr (r_fine ! i) \<and>
     (\<forall>j<length r_fine. E_fine E_spline ! i \<le> E_fine E_spline ! j) \<and>
     (\<forall>j<length r_fine. E_fine E_spline ! j = E_fine E_spline ! i \<longrightarrow>
        i \<le> j \<and> r_fine ! i \<le> r_fine ! j)"
proof -
  from Req_idx_first [of E_spline] obtain i where i: "i < 200" "Req_idx E_spline = Inr i"
    "\<forall>j<200. E_fine E_spline ! i \<le> E_fine E_spline ! j"
    "\<forall>j<i. E_fine E_spline ! i < E_fine E_spline ! j"
    by blast
  have req: "Req E_spline = Inr (r_fine ! i)"
    using i(1,2) by (simp add: Req_def getitem_def length_r_fine)
  have tie: "\<forall>j<length r_fine. E_fine E_spline ! j = E_fine E_spline ! i \<longrightarrow>
        i \<le> j \<and> r_fine ! i \<le> r_fine ! j"
  proof (intro allI impI)
    fix j assume j: "j < length r_fine" and e: "E_fine E_spline ! j = E_fine E_spline ! i"
    have ij: "i \<le> j"
    proof (rule ccontr)
      assume "\<not> i \<le> j"
      then have "j < i" by simp
      with i(4) have "E_fine E_spline ! i < E_fine E_spline ! j" by blast
      with e show False by simp
    qed
    have "r_fine ! i \<le> r_fine ! j"
    proof (cases "i = j")
      case True
      then show ?thesis by simp
    next
      case False
      with ij have "i < j" by simp
      with j have "r_fine ! i < r_fine ! j"
        by (simp add: r_fine_mono length_r_fine)
      then show ?thesis by simp
    qed
    with ij show "i \<le> j \<and> r_fine ! i \<le> r_fine ! j" by simp
  qed
  from i(1,2,3) req tie show ?thesis
    by (intro exI [of _ i]) (simp add: length_r_fine)
qed

theorem Req_first_minimum_witness:
  "Req (\<lambda>r. if r = r_fine ! 3 \<or> r = r_fine ! 7 then - 1 else 0) = Inr (r_fine ! 3) \<and>
   r_fine ! 3 < r_fine ! 7 \<and> r_fine ! 3 = 198261 / 199000"
proof -
  let ?E = "\<lambda>r::real. if r = r_fine ! 3 \<or> r = r_fine ! 7 then - 1 else (0::real)"
  from Req_first_minimum [of ?E] obtain i where i: "i < length r_fine"
    "Req ?E = Inr (r_fine ! i)"
    "\<forall>j<length r_fine. E_fine ?E ! i \<le> E_fine ?E ! j"
    "\<forall>j<length r_fine. E_fine ?E ! j = E_fine ?E ! i \<longrightarrow> i \<le> j \<and> r_fine ! i \<le> r_fine ! j"
    by blast
  have nth: "\<And>j. j < length r_fine \<Longrightarrow> E_fine ?E ! j = ?E (r_fine ! j)"
    by (simp add: E_fine_def)
  have three: "(3::nat) < length r_fine" by (simp add: length_r_fine)
  have "E_fine ?E ! i \<le> E_fine ?E ! 3" using i(3) three by blast
  then have "?E (r_fine ! i) \<le> - 1" using nth [OF i(1)] nth [OF three] by simp
  then have mem: "r_fine ! i = r_fine ! 3 \<or> r_fine ! i = r_fine ! 7"
    by (simp split: if_splits)
  then have "E_fine ?E ! 3 = E_fine ?E ! i"
    using nth [OF i(1)] nth [OF three] by auto
  with i(4) three have le: "r_fine ! i \<le> r_fine ! 3" by blast
  have lt: "r_fine ! 3 < r_fine ! 7" by (simp add: nth_r_fine)
  from mem le lt have "r_fine ! i = r_fine ! 3" by auto
  with i(2) lt show ?thesis by (simp add: nth_r_fine)
qed

text \<open>
  C9: the grid has exactly 200 points, uniformly spaced from \<open>0.5 \<cdot> 1.89\<close> to
  \<open>2.3 \<cdot> 1.89\<close> with both ends included, and for every energy function the returned
  \<^verbatim>\<open>Req\<close> is one of them, so it lies in that closed interval.
\<close>

theorem r_fine_grid_Req:
  "length r_fine = 200 \<and> distinct r_fine \<and>
   r_fine ! 0 = 0.5 * 1.89 \<and> r_fine ! 199 = 2.3 * 1.89 \<and>
   (\<forall>i<199. r_fine ! Suc i - r_fine ! i = (2.3 * 1.89 - 0.5 * 1.89) / 199) \<and>
   (\<forall>r\<in>set r_fine. 0.5 * 1.89 \<le> r \<and> r \<le> 2.3 * 1.89) \<and>
   (\<exists>r\<in>set r_fine. Req E_spline = Inr r \<and> 0.5 * 1.89 \<le> r \<and> r \<le> 2.3 * 1.89)"
proof -
  have ends: "r_fine ! 0 = 0.5 * 1.89" "r_fine ! 199 = 2.3 * 1.89"
    by (simp_all add: nth_r_fine)
  have step: "\<forall>i<199. r_fine ! Suc i - r_fine ! i = (2.3 * 1.89 - 0.5 * 1.89) / 199"
    by (simp add: nth_r_fine algebra_simps)
  have inside: "\<forall>r\<in>set r_fine. 0.5 * 1.89 \<le> r \<and> r \<le> 2.3 * 1.89"
  proof
    fix r assume "r \<in> set r_fine"
    then obtain i where "i < length r_fine" "r = r_fine ! i"
      by (auto simp: in_set_conv_nth)
    then show "0.5 * 1.89 \<le> r \<and> r \<le> 2.3 * 1.89"
      using r_fine_bounds [of i] by (simp add: length_r_fine)
  qed
  from Req_idx_first [of E_spline] obtain i where i: "i < 200" "Req_idx E_spline = Inr i"
    by blast
  then have req: "Req E_spline = Inr (r_fine ! i)"
    by (simp add: Req_def getitem_def length_r_fine)
  have mem: "r_fine ! i \<in> set r_fine"
    using i(1) by (simp add: length_r_fine)
  with req inside have "\<exists>r\<in>set r_fine. Req E_spline = Inr r \<and> 0.5 * 1.89 \<le> r \<and> r \<le> 2.3 * 1.89"
    by blast
  with ends step inside show ?thesis
    by (simp only: length_r_fine distinct_r_fine simp_thms)
qed

theorem r_fine_grid_Req_witness:
  "r_fine ! Suc 0 - r_fine ! 0 = (2.3 * 1.89 - 0.5 * 1.89) / 199 \<and>
   (\<exists>r\<in>set r_fine. Req (\<lambda>r. (r - 2)\<^sup>2) = Inr r \<and> 0.5 * 1.89 \<le> r \<and> r \<le> 2.3 * 1.89)"
proof -
  have "(0::nat) < 199" by simp
  with r_fine_grid_Req [of "\<lambda>r. (r - 2)\<^sup>2"] show ?thesis by blast
qed

text \<open>
  C4, as amended: the reduced mass is \<open>(m\<^sub>H \<cdot> m\<^sub>F) / (m\<^sub>H + m\<^sub>F)\<close>; for the notebook's
  masses 1836 and 34883 it is \<open>(1836 \<cdot> 34883) / (1836 + 34883)\<close>, which is 1744.2 to one
  decimal place.
\<close>

theorem mu_value:
  "mu = (1836 * 34883) / (1836 + 34883) \<and> \<bar>mu - 1744.2\<bar> < 0.05"
  by (simp add: mu_def mH_def mF_def)

text \<open>
  C4, as stated, gives the value as approximately 1743.0: the reduced mass differs from
  1743.0 by more than one whole unit.
\<close>

theorem mu_not_1743: "\<not> \<bar>mu - 1743.0\<bar> \<le> 1"
  by (simp add: mu_def mH_def mF_def)

text \<open>
  C5: for every force constant \<open>k\<close> and reduced mass \<open>\<mu>\<close> the harmonic frequency is
  \<open>(1/2\<pi>) \<sqrt>(k/\<mu>)\<close>, and in the extractor's output the force constant is the curvature
  function evaluated at the equilibrium separation and the frequency is that formula at
  the output's force constant and reduced mass.
\<close>

theorem nu_formula:
  "nu k m = (1 / (2 * pi)) * sqrt (k / m) \<and>
   (extractor Curvature_spline r_eq = Inr q \<longrightarrow>
      Force_Constant q = Curvature_spline r_eq \<and>
      frequency q = (1 / (2 * pi)) * sqrt (Force_Constant q / reduced_mass q))"
  by (auto simp: nu_def extractor_def Let_def split: if_splits)

theorem nu_formula_witness:
  "extractor (\<lambda>r. 4 * mu) 2 = Inr \<lparr>Force_Constant = 4 * mu, reduced_mass = mu, frequency = 1 / pi\<rparr> \<and>
   frequency \<lparr>Force_Constant = 4 * mu, reduced_mass = mu, frequency = 1 / pi\<rparr> =
     (1 / (2 * pi)) * sqrt (4 * mu / mu)"
proof -
  have e: "extractor (\<lambda>r. 4 * mu) 2 =
      Inr \<lparr>Force_Constant = 4 * mu, reduced_mass = mu, frequency = 1 / pi\<rparr>"
    using mu_pos by (simp add: extractor_def nu_def Let_def not_le)
  with nu_formula [of 0 1 "\<lambda>r. 4 * mu" 2
      "\<lparr>Force_Constant = 4 * mu, reduced_mass = mu, frequency = 1 / pi\<rparr>"]
  show ?thesis by simp
qed

text \<open>
  C6: where the curvature at the equilibrium separation is \<open>k \<le> 0\<close> the extractor signals
  \<^verbatim>\<open>NonPhysicalCurvatureError\<close>; where \<open>k > 0\<close> it returns the force constant, the
  reduced mass and the harmonic frequency, each a function of the inputs alone, the last
  two positive.
\<close>

theorem extractor_guard:
  "(Curvature_spline r_eq \<le> 0 \<longrightarrow>
      extractor Curvature_spline r_eq = Inl NonPhysicalCurvatureError) \<and>
   (0 < Curvature_spline r_eq \<longrightarrow>
      extractor Curvature_spline r_eq =
        Inr \<lparr>Force_Constant = Curvature_spline r_eq, reduced_mass = mu,
             frequency = nu (Curvature_spline r_eq) mu\<rparr> \<and>
      0 < mu \<and> 0 < nu (Curvature_spline r_eq) mu)"
  using mu_pos nu_pos [of "Curvature_spline r_eq" mu]
  by (simp add: extractor_def Let_def)

theorem extractor_guard_witness:
  "extractor (\<lambda>r. r - 2) 2 = Inl NonPhysicalCurvatureError \<and>
   extractor (\<lambda>r. r - 2) 1 = Inl NonPhysicalCurvatureError \<and>
   extractor (\<lambda>r. r - 2) 3 = Inr \<lparr>Force_Constant = 1, reduced_mass = mu, frequency = nu 1 mu\<rparr>"
  using extractor_guard [of "\<lambda>r. r - 2" 2] extractor_guard [of "\<lambda>r. r - 2" 1]
    extractor_guard [of "\<lambda>r. r - 2" 3]
  by simp

text \<open>
  C10, as amended: the reported vibrational energy is the double-precision product of
  \<^verbatim>\<open>2 * np.pi\<close> and \<^verbatim>\<open>nu\<close>, for every \<^verbatim>\<open>nu\<close>. For every force constant \<open>k > 0\<close> and
  reduced mass \<open>\<mu> > 0\<close>, with \<open>\<nu> = (1/2\<pi>) \<sqrt>(k/\<mu>)\<close> computed in double precision, it
  agrees with the double \<open>\<sqrt>(k/\<mu>)\<close> up to rounding: both are \<open>+\<infinity>\<close>, or both are finite and
  differ by at most \<open>2\<^sup>-\<^sup>5\<^sup>1\<close> times \<open>\<sqrt>(k/\<mu>)\<close>.
\<close>

theorem E_vib_au_rounded:
  "E_vib_au v = float64_mul (Finite (2 * np_pi)) v \<and>
   (0 < k \<and> 0 < m \<longrightarrow>
      (np_sqrt (float64_div (Finite k) (Finite m)) = PInf \<and>
       E_vib_au (nu_float64 (Finite k) (Finite m)) = PInf) \<or>
      (\<exists>sv ev. np_sqrt (float64_div (Finite k) (Finite m)) = Finite sv \<and>
         E_vib_au (nu_float64 (Finite k) (Finite m)) = Finite ev \<and>
         0 \<le> sv \<and> \<bar>ev - sv\<bar> \<le> sv / 2 ^ 51))"
proof (intro conjI impI)
  show "E_vib_au v = float64_mul (Finite (2 * np_pi)) v" by (rule E_vib_au_mul)
next
  assume km: "0 < k \<and> 0 < m"
  let ?s = "np_sqrt (float64_div (Finite k) (Finite m))"
  let ?c = "5734161139222659 / 2 ^ 55 :: real"
  have E: "E_vib_au (nu_float64 (Finite k) (Finite m)) =
      float64_mul (Finite (2 * np_pi)) (float64_mul (Finite ?c) ?s)"
    by (simp only: E_vib_au_mul nu_float64_mul)
  have d: "float64_div (Finite k) (Finite m) = float64_round (k / m)"
    using km by simp
  have pos: "0 < k / m" using km by simp
  have tpos: "0 < 2 * np_pi" by (simp add: np_pi_def)
  from float64_round_pos [OF pos]
  show "(?s = PInf \<and> E_vib_au (nu_float64 (Finite k) (Finite m)) = PInf) \<or>
      (\<exists>sv ev. ?s = Finite sv \<and> E_vib_au (nu_float64 (Finite k) (Finite m)) = Finite ev \<and>
         0 \<le> sv \<and> \<bar>ev - sv\<bar> \<le> sv / 2 ^ 51)"
  proof (elim disjE exE conjE)
    assume "float64_round (k / m) = PInf"
    then have s: "?s = PInf" by (simp only: d np_sqrt.simps)
    have "float64_mul (Finite (2 * np_pi)) (float64_mul (Finite ?c) PInf) = PInf"
      using tpos by simp
    with s E show ?thesis by simp
  next
    fix r0 assume r: "float64_round (k / m) = Finite r0" and z: "r0 = 0"
    have s: "?s = Finite 0"
      unfolding d r z by (simp add: float64_round_def)
    have "float64_mul (Finite (2 * np_pi)) (float64_mul (Finite ?c) (Finite 0)) = Finite 0"
      by (simp add: float64_round_def)
    with s E show ?thesis by simp
  next
    fix r0 assume r: "float64_round (k / m) = Finite r0"
      and lo: "pow2 (- 1074) \<le> r0" and hi: "r0 < 2 ^ 1024"
    have r0pos: "\<not> r0 < 0" using lo pow2_pos [of "- 1074"] by linarith
    from sqrt_round_bounds [OF lo hi] obtain sv where
      sv: "float64_round (sqrt r0) = Finite sv" "pow2 (- 538) \<le> sv" "sv \<le> 2 ^ 513"
      by blast
    have s: "?s = Finite sv"
      unfolding d r using r0pos sv(1) by simp
    from chain_bound [OF sv(2,3)] obtain ev where
      ev: "float64_mul (Finite (2 * np_pi)) (float64_mul (Finite ?c) (Finite sv)) = Finite ev"
        "\<bar>ev - sv\<bar> \<le> sv / 2 ^ 51"
      by blast
    have "0 \<le> sv" using sv(2) pow2_pos [of "- 538"] by linarith
    with s E ev show ?thesis by simp
  qed
qed

theorem E_vib_au_rounded_witness:
  "(0::real) < 3 \<and> (0::real) < 1 \<and>
   E_vib_au (Finite 1) = float64_mul (Finite (2 * np_pi)) (Finite 1) \<and>
   (\<exists>sv ev. np_sqrt (float64_div (Finite 3) (Finite 1)) = Finite sv \<and>
      E_vib_au (nu_float64 (Finite 3) (Finite 1)) = Finite ev \<and>
      0 \<le> sv \<and> \<bar>ev - sv\<bar> \<le> sv / 2 ^ 51)"
proof -
  have ne: "np_sqrt (float64_div (Finite 3) (Finite 1)) \<noteq> PInf"
    unfolding sqrt_3_1 by simp
  have h: "(0::real) < 3 \<and> (0::real) < 1" by simp
  from E_vib_au_rounded [of "Finite 1" 3 1] h ne show ?thesis by blast
qed

text \<open>
  C10, as stated, has the reported energy equal to \<open>\<sqrt>(k/\<mu>)\<close> exactly: at \<open>k = 3\<close>,
  \<open>\<mu> = 1\<close> the reported energy is \<^verbatim>\<open>1.7320508075688774\<close> and the square root is
  \<^verbatim>\<open>1.7320508075688772\<close>, one unit in the last place apart, and the reported energy is
  not the real number \<open>\<sqrt>3\<close> either.
\<close>

theorem E_vib_au_not_sqrt:
  "(0::real) < 3 \<and> (0::real) < 1 \<and>
   E_vib_au (nu_float64 (Finite 3) (Finite 1)) = Finite (7800463371553963 / 2 ^ 52) \<and>
   np_sqrt (float64_div (Finite 3) (Finite 1)) = Finite (7800463371553962 / 2 ^ 52) \<and>
   E_vib_au (nu_float64 (Finite 3) (Finite 1)) \<noteq> np_sqrt (float64_div (Finite 3) (Finite 1)) \<and>
   E_vib_au (nu_float64 (Finite 3) (Finite 1)) \<noteq> Finite (sqrt (3 / 1))"
proof -
  have "sqrt 3 < (15600926743107925 / 2 ^ 53 :: real)"
    by (rule real_less_lsqrt) (simp_all add: power2_eq_square)
  then have "(7800463371553963 / 2 ^ 52 :: real) \<noteq> sqrt (3 / 1)" by simp
  then show ?thesis unfolding E_3_1 sqrt_3_1 by simp
qed

end
